theory Spec2Isabelle
  imports Main "HOL-Library.AList" "HOL-Library.Word"
begin

section \<open>Strings at the cgo boundary\<close>

text \<open>
  A Go string is a sequence of bytes and may contain the byte 0. \<^verbatim>\<open>C.CString\<close> copies
  the bytes and appends a terminating 0, and every GLib function that receives the pointer
  (\<^verbatim>\<open>g_str_hash\<close>, \<^verbatim>\<open>g_str_equal\<close>) reads up to the first 0 only; \<^verbatim>\<open>C.GoString\<close> reads a
  C string back up to its terminator. A C string is therefore modelled by the bytes in
  front of its terminator: \<open>CString\<close> cuts a Go string at its first 0 byte.
\<close>

abbreviation NUL :: char where
  "NUL \<equiv> CHR 0x00"

definition CString :: "string \<Rightarrow> string" where
  "CString s = takeWhile (\<lambda>c. c \<noteq> NUL) s"

definition GoString :: "string \<Rightarrow> string" where
  "GoString p = takeWhile (\<lambda>c. c \<noteq> NUL) p"

definition cstr :: "string \<Rightarrow> bool" where
  "cstr s = (NUL \<notin> set s)"

section \<open>Errors\<close>

text \<open>
  The source returns \<^verbatim>\<open>fmt.Errorf\<close> values. Each constructor stands for one message of
  the source; the names follow the error taxonomy of the specification.
\<close>

datatype SchemaAttributeType =
    SchemaAttributeString
  | SchemaAttributeInteger
  | SchemaAttributeBoolean
  | SchemaAttributeOther int \<comment> \<open>any other value of the underlying \<^verbatim>\<open>int\<close>\<close>

datatype error =
    EmptyInput \<comment> \<open>"at least one key-value pair is required", "attributes map cannot be empty"\<close>
  | OddArgumentCount nat \<comment> \<open>"arguments must be pairs of key-value: got %d arguments"\<close>
  | KeyTypeMismatch \<comment> \<open>"argument %d must be a string key"\<close>
  | MissingValue string \<comment> \<open>"missing value for key %q"\<close>
  | UnsupportedType string \<comment> \<open>"unsupported type %T for value of key %q"\<close>
  | SetFailed string error \<comment> \<open>"failed to set attribute %q: %w"\<close>
  | NotInitialized \<comment> \<open>"attributes is nil"\<close>
  | InvalidKey \<comment> \<open>"attribute key cannot be empty"\<close>
  | InvalidAttributeValue string string SchemaAttributeType
      \<comment> \<open>"attribute %q has invalid value %q for type %s"\<close>
  | UndeclaredAttribute string \<comment> \<open>"attribute %q is not defined in schema"\<close>
  | MissingRequiredAttribute string \<comment> \<open>"required attribute %q is missing"\<close>
  | NilSchema \<comment> \<open>"schema cannot be nil", "schema is nil"\<close>
  | NilAttributes \<comment> \<open>"attributes cannot be nil"\<close>
  | InvalidBooleanLiteral string \<comment> \<open>"invalid boolean value: %q"\<close>
  | BooleanTypeMismatch \<comment> \<open>"cannot convert type %T to boolean"\<close>
  | EmptyIntegerLiteral \<comment> \<open>"integer value cannot be empty"\<close>
  | InvalidIntegerLiteral string \<comment> \<open>"invalid integer value: %q"\<close>
  | IntegerTypeMismatch \<comment> \<open>"cannot convert type %T to integer"\<close>
  | EmptyLabel \<comment> \<open>"label cannot be empty"\<close>
  | EmptyPassword \<comment> \<open>"password cannot be empty"\<close>
  | ExternalOperationFailed "string option"
      \<comment> \<open>"password store failed: %s", "attribute validation failed: %s"\<close>

section \<open>The C heap of hash tables\<close>

text \<open>
  A \<^verbatim>\<open>GHashTable\<close> created with \<^verbatim>\<open>g_str_hash\<close> and \<^verbatim>\<open>g_str_equal\<close> maps C strings
  to C strings. It is an association list with one entry per key; the order of the list
  is the order in which a \<^verbatim>\<open>GHashTableIter\<close> visits the entries, which GLib leaves
  unspecified, so the theorems hold for every order. Tables live in a heap indexed by
  address: \<open>None\<close> marks a destroyed table, and a fresh table gets the next address.
\<close>

type_synonym GHashTable = "(string \<times> string) list"

type_synonym c_heap = "GHashTable option list"

definition table_at :: "c_heap \<Rightarrow> nat \<Rightarrow> GHashTable" where
  "table_at h p = (if p < length h then (case h ! p of Some t \<Rightarrow> t | None \<Rightarrow> []) else [])"

definition g_hash_table_new_full :: "c_heap \<Rightarrow> nat \<times> c_heap" where
  "g_hash_table_new_full h = (length h, h @ [Some []])"

definition g_hash_table_insert :: "c_heap \<Rightarrow> nat \<Rightarrow> string \<Rightarrow> string \<Rightarrow> c_heap" where
  "g_hash_table_insert h p k v = h[p := Some (AList.update k v (table_at h p))]"

definition g_hash_table_lookup :: "c_heap \<Rightarrow> nat \<Rightarrow> string \<Rightarrow> string option" where
  "g_hash_table_lookup h p k = map_of (table_at h p) k"

definition g_hash_table_contains :: "c_heap \<Rightarrow> nat \<Rightarrow> string \<Rightarrow> bool" where
  "g_hash_table_contains h p k = (map_of (table_at h p) k \<noteq> None)"

definition g_hash_table_remove :: "c_heap \<Rightarrow> nat \<Rightarrow> string \<Rightarrow> bool \<times> c_heap" where
  "g_hash_table_remove h p k =
     (map_of (table_at h p) k \<noteq> None, h[p := Some (AList.delete k (table_at h p))])"

definition g_hash_table_size :: "c_heap \<Rightarrow> nat \<Rightarrow> nat" where
  "g_hash_table_size h p = length (table_at h p)"

definition g_hash_table_unref :: "c_heap \<Rightarrow> nat \<Rightarrow> c_heap" where
  "g_hash_table_unref h p = h[p := None]"

text \<open>
  Reading a destroyed table is undefined in C. \<open>table_at\<close> reads an empty table there;
  the source never does it, since \<open>free\<close> clears the only pointer it holds, and the
  theorems about a live container assume that its pointer leads to a table.

  A well-formed table has one entry per key, and its keys and values are C strings. A
  heap is well-formed when its tables are. The functions below build well-formed tables
  only, and they keep a heap well-formed (lemmas \<open>heap_wf_NewAttributes\<close> to
  \<open>heap_wf_BuildAttributes\<close>).
\<close>

definition wf_table :: "GHashTable \<Rightarrow> bool" where
  "wf_table t = (distinct (map fst t) \<and> list_all (\<lambda>kv. cstr (fst kv) \<and> cstr (snd kv)) t)"

definition heap_wf :: "c_heap \<Rightarrow> bool" where
  "heap_wf h = list_all (\<lambda>e. case e of None \<Rightarrow> True | Some t \<Rightarrow> wf_table t) h"

section \<open>Attributes (attributes.go)\<close>

record Attributes =
  cAttributes :: "nat option"

definition attrs_table :: "c_heap \<Rightarrow> Attributes \<Rightarrow> GHashTable option" where
  "attrs_table h a =
     (case cAttributes a of
        None \<Rightarrow> None
      | Some p \<Rightarrow> if p < length h then h ! p else None)"

definition NewAttributes :: "c_heap \<Rightarrow> Attributes \<times> c_heap" where
  "NewAttributes h =
     (let (hashTable, h') = g_hash_table_new_full h
      in (\<lparr>cAttributes = Some hashTable\<rparr>, h'))"

definition set_attr :: "c_heap \<Rightarrow> Attributes \<Rightarrow> string \<Rightarrow> string \<Rightarrow> error option \<times> c_heap" where
  "set_attr h a key val =
     (case cAttributes a of
        None \<Rightarrow> (Some NotInitialized, h)
      | Some p \<Rightarrow>
          if key = [] then (Some InvalidKey, h)
          else (None, g_hash_table_insert h p (CString key) (CString val)))"

definition Set_attr :: "c_heap \<Rightarrow> Attributes \<Rightarrow> string \<Rightarrow> string \<Rightarrow> error option \<times> c_heap" where
  "Set_attr h a key val = set_attr h a key val"

definition Get :: "c_heap \<Rightarrow> Attributes \<Rightarrow> string \<Rightarrow> string" where
  "Get h a key =
     (case cAttributes a of
        None \<Rightarrow> []
      | Some p \<Rightarrow>
          (case g_hash_table_lookup h p (CString key) of
             None \<Rightarrow> []
           | Some cValue \<Rightarrow> GoString cValue))"

definition Has :: "c_heap \<Rightarrow> Attributes \<Rightarrow> string \<Rightarrow> bool" where
  "Has h a key =
     (case cAttributes a of
        None \<Rightarrow> False
      | Some p \<Rightarrow> g_hash_table_contains h p (CString key))"

definition Delete :: "c_heap \<Rightarrow> Attributes \<Rightarrow> string \<Rightarrow> bool \<times> c_heap" where
  "Delete h a key =
     (case cAttributes a of
        None \<Rightarrow> (False, h)
      | Some p \<Rightarrow> g_hash_table_remove h p (CString key))"

text \<open>
  The keys and values of a table are the results of \<^verbatim>\<open>C.CString\<close> and never \<^verbatim>\<open>NULL\<close>,
  so the tests \<^verbatim>\<open>key != nil\<close> and \<^verbatim>\<open>value != nil\<close> of the iterations always hold and
  are left out.

  \<open>Keys\<close> and \<open>ToMap\<close> return \<^verbatim>\<open>nil\<close> (here \<open>None\<close>) on a released container and a
  fresh slice or map otherwise. A Go map is an association list with one entry per key
  whose order is the order in which \<^verbatim>\<open>range\<close> enumerates it; Go leaves that order
  unspecified as well. \<open>go_range\<close> is what a \<^verbatim>\<open>range\<close> loop visits: nothing for \<^verbatim>\<open>nil\<close>.
\<close>

definition go_range :: "'a list option \<Rightarrow> 'a list" where
  "go_range m = (case m of None \<Rightarrow> [] | Some xs \<Rightarrow> xs)"

definition Keys :: "c_heap \<Rightarrow> Attributes \<Rightarrow> string list option" where
  "Keys h a =
     (case cAttributes a of
        None \<Rightarrow> None
      | Some p \<Rightarrow> Some (fold (\<lambda>kv keys. keys @ [GoString (fst kv)]) (table_at h p) []))"

definition Len :: "c_heap \<Rightarrow> Attributes \<Rightarrow> nat" where
  "Len h a =
     (case cAttributes a of
        None \<Rightarrow> 0
      | Some p \<Rightarrow> g_hash_table_size h p)"

definition IsEmpty :: "c_heap \<Rightarrow> Attributes \<Rightarrow> bool" where
  "IsEmpty h a = (Len h a = 0)"

definition ToMap :: "c_heap \<Rightarrow> Attributes \<Rightarrow> (string \<times> string) list option" where
  "ToMap h a =
     (case cAttributes a of
        None \<Rightarrow> None
      | Some p \<Rightarrow>
          Some (fold (\<lambda>kv result. AList.update (GoString (fst kv)) (GoString (snd kv)) result)
                  (table_at h p) []))"

definition free :: "c_heap \<Rightarrow> Attributes \<Rightarrow> Attributes \<times> c_heap" where
  "free h a =
     (case cAttributes a of
        Some p \<Rightarrow> (a\<lparr>cAttributes := None\<rparr>, g_hash_table_unref h p)
      | None \<Rightarrow> (a, h))"

definition Free :: "c_heap \<Rightarrow> Attributes \<Rightarrow> Attributes \<times> c_heap" where
  "Free h a = free h a"

text \<open>
  \<open>AttributesFromMap\<close>: the loop over the Go map, then the function. Every error path
  frees the container under construction and returns \<^verbatim>\<open>nil\<close>.
\<close>

fun from_map_loop ::
  "c_heap \<Rightarrow> Attributes \<Rightarrow> (string \<times> string) list \<Rightarrow> (error + Attributes) \<times> c_heap" where
  "from_map_loop h attrs [] = (Inr attrs, h)"
| "from_map_loop h attrs ((key, val) # rest) =
     (if key = [] then (Inl InvalidKey, snd (free h attrs))
      else if val = [] then from_map_loop h attrs rest
      else (case set_attr h attrs key val of
              (Some err, h') \<Rightarrow> (Inl (SetFailed key err), snd (free h' attrs))
            | (None, h') \<Rightarrow> from_map_loop h' attrs rest))"

definition AttributesFromMap ::
  "c_heap \<Rightarrow> (string \<times> string) list \<Rightarrow> (error + Attributes) \<times> c_heap" where
  "AttributesFromMap h values =
     (if length values = 0 then (Inl EmptyInput, h)
      else (let (attrs, h') = NewAttributes h in from_map_loop h' attrs values))"

text \<open>
  \<open>Equals\<close>: both receivers may be \<^verbatim>\<open>nil\<close> pointers. The loop returns false at the
  first key that the other container lacks or maps to another value.
\<close>

fun equals_loop :: "c_heap \<Rightarrow> Attributes \<Rightarrow> Attributes \<Rightarrow> string list \<Rightarrow> bool" where
  "equals_loop h a other [] = True"
| "equals_loop h a other (key # keys) =
     (if \<not> Has h other key then False
      else if Get h a key \<noteq> Get h other key then False
      else equals_loop h a other keys)"

fun Equals :: "c_heap \<Rightarrow> Attributes option \<Rightarrow> Attributes option \<Rightarrow> bool" where
  "Equals h None None = True"
| "Equals h None (Some other) = False"
| "Equals h (Some a) None = False"
| "Equals h (Some a) (Some other) =
     (if Len h a \<noteq> Len h other then False
      else equals_loop h a other (go_range (Keys h a)))"

text \<open>\<open>Clone\<close> copies every entry into a table of its own.\<close>

fun clone_loop :: "c_heap \<Rightarrow> nat \<Rightarrow> (string \<times> string) list \<Rightarrow> c_heap" where
  "clone_loop h q [] = h"
| "clone_loop h q ((key, val) # rest) =
     clone_loop (g_hash_table_insert h q (CString (GoString key)) (CString (GoString val))) q rest"

definition Clone :: "c_heap \<Rightarrow> Attributes \<Rightarrow> (error + Attributes) \<times> c_heap" where
  "Clone h a =
     (case cAttributes a of
        None \<Rightarrow> (Inl NotInitialized, h)
      | Some p \<Rightarrow>
          (let (clone, h') = NewAttributes h
           in (case cAttributes clone of
                 None \<Rightarrow> (Inr clone, h')
               | Some q \<Rightarrow> (Inr clone, clone_loop h' q (table_at h p)))))"

text \<open>
  \<open>Validate\<close> binds \<^verbatim>\<open>secret_attributes_validate\<close> of the C library, which is a
  parameter here: it answers with a result flag and an optional error message.
\<close>

record SecretSchema =
  schema_name :: string
  schema_flags :: int
  schema_attributes :: "(string \<times> SchemaAttributeType) list"
    \<comment> \<open>the entries of the C array in front of the first \<^verbatim>\<open>NULL\<close> name\<close>

record Schema =
  cSchema :: "SecretSchema option"

definition Validate ::
  "(SecretSchema \<Rightarrow> GHashTable \<Rightarrow> bool \<times> string option) \<Rightarrow>
   c_heap \<Rightarrow> Attributes \<Rightarrow> Schema option \<Rightarrow> error option" where
  "Validate secret_attributes_validate h a schema =
     (case cAttributes a of
        None \<Rightarrow> Some NotInitialized
      | Some p \<Rightarrow>
          (case schema of
             None \<Rightarrow> Some NilSchema
           | Some s \<Rightarrow>
               (case cSchema s of
                  None \<Rightarrow> Some NilSchema
                | Some c \<Rightarrow>
                    (let (result, cError) = secret_attributes_validate c (table_at h p)
                     in if \<not> result then Some (ExternalOperationFailed cError) else None))))"

section \<open>Schema (schema.go)\<close>

text \<open>
  \<open>Schema_Attributes\<close> is the method \<^verbatim>\<open>(*Schema).Attributes\<close>: it reads at most 32
  entries of the C array into a Go map, a later entry of the same name replacing an
  earlier one.
\<close>

definition Schema_Attributes :: "Schema \<Rightarrow> (string \<times> SchemaAttributeType) list option" where
  "Schema_Attributes s =
     (case cSchema s of
        None \<Rightarrow> None
      | Some c \<Rightarrow>
          Some (fold (\<lambda>attr attrs. AList.update (GoString (fst attr)) (snd attr) attrs)
                  (take 32 (schema_attributes c)) []))"

section \<open>Building and validating attributes\<close>

subsection \<open>Values of type \<^verbatim>\<open>interface{}\<close>\<close>

text \<open>
  A value of type \<^verbatim>\<open>interface{}\<close> is a dynamic type with a value of that type. \<^verbatim>\<open>int\<close>
  and \<^verbatim>\<open>uint\<close> are taken as 64 bits wide. \<open>VOther\<close> stands for a value of any other
  dynamic type, tagged with the name of the type. Two interface values are equal when
  their dynamic types and their values are, which is the equality of this datatype.
\<close>

datatype GoValue =
    VNil
  | VString string
  | VBool bool
  | VInt "64 word"
  | VInt8 "8 word"
  | VInt16 "16 word"
  | VInt32 "32 word"
  | VInt64 "64 word"
  | VUint "64 word"
  | VUint8 "8 word"
  | VUint16 "16 word"
  | VUint32 "32 word"
  | VUint64 "64 word"
  | VOther string

subsection \<open>\<^verbatim>\<open>fmt.Sprintf("%d", v)\<close>\<close>

text \<open>
  The verb \<^verbatim>\<open>%d\<close> of Go's \<^verbatim>\<open>fmt\<close> package prints an integer in base 10, with a
  leading minus sign when it is negative.
\<close>

definition digit_char :: "nat \<Rightarrow> char" where
  "digit_char d = char_of (48 + d)"

fun decimal :: "nat \<Rightarrow> string" where
  "decimal n = (if n < 10 then [digit_char n] else decimal (n div 10) @ [digit_char (n mod 10)])"

declare decimal.simps [simp del]

definition Sprintf_d :: "int \<Rightarrow> string" where
  "Sprintf_d i = (if i < 0 then CHR ''-'' # decimal (nat (- i)) else decimal (nat i))"

subsection \<open>BuildAttributes\<close>

text \<open>
  \<open>coerce_value\<close> is the type switch on the value of a pair; \<open>None\<close> is its
  \<^verbatim>\<open>default\<close> branch.
\<close>

fun coerce_value :: "GoValue \<Rightarrow> string option" where
  "coerce_value (VString v) = Some v"
| "coerce_value (VInt v) = Some (Sprintf_d (sint v))"
| "coerce_value (VInt8 v) = Some (Sprintf_d (sint v))"
| "coerce_value (VInt16 v) = Some (Sprintf_d (sint v))"
| "coerce_value (VInt32 v) = Some (Sprintf_d (sint v))"
| "coerce_value (VInt64 v) = Some (Sprintf_d (sint v))"
| "coerce_value (VUint v) = Some (Sprintf_d (uint v))"
| "coerce_value (VUint8 v) = Some (Sprintf_d (uint v))"
| "coerce_value (VUint16 v) = Some (Sprintf_d (uint v))"
| "coerce_value (VUint32 v) = Some (Sprintf_d (uint v))"
| "coerce_value (VUint64 v) = Some (Sprintf_d (uint v))"
| "coerce_value (VBool v) = Some (if v then ''true'' else ''false'')"
| "coerce_value VNil = Some []"
| "coerce_value (VOther ty) = None"

definition effectiveArgs :: "GoValue list \<Rightarrow> GoValue list" where
  "effectiveArgs args =
     (if length args > 0 \<and> args ! (length args - 1) = VNil
      then take (length args - 1) args else args)"

text \<open>
  The loop visits the arguments two at a time. A \<^verbatim>\<open>nil\<close> in key position ends it; any
  other key that is not a string is an error.
\<close>

fun build_loop ::
  "c_heap \<Rightarrow> Attributes \<Rightarrow> GoValue list \<Rightarrow> (error + Attributes) \<times> c_heap" where
  "build_loop h attrs [] = (Inr attrs, h)"
| "build_loop h attrs (VNil # rest) = (Inr attrs, h)"
| "build_loop h attrs [VString key] = (Inl (MissingValue key), snd (free h attrs))"
| "build_loop h attrs (VString key # v # rest) =
     (case coerce_value v of
        None \<Rightarrow> (Inl (UnsupportedType key), snd (free h attrs))
      | Some valueStr \<Rightarrow>
          (case Set_attr h attrs key valueStr of
             (Some err, h') \<Rightarrow> (Inl (SetFailed key err), snd (free h' attrs))
           | (None, h') \<Rightarrow> build_loop h' attrs rest))"
| "build_loop h attrs (k # rest) = (Inl KeyTypeMismatch, snd (free h attrs))"

definition BuildAttributes :: "c_heap \<Rightarrow> GoValue list \<Rightarrow> (error + Attributes) \<times> c_heap" where
  "BuildAttributes h args =
     (if length args = 0 then (Inl EmptyInput, h)
      else if length args = 1 \<and> args ! 0 = VNil then
        (let (attrs, h') = NewAttributes h in (Inr attrs, h'))
      else if length (effectiveArgs args) mod 2 \<noteq> 0 then
        (Inl (OddArgumentCount (length args)), h)
      else
        (let (attrs, h') = NewAttributes h in build_loop h' attrs (effectiveArgs args)))"

subsection \<open>Validation against a schema\<close>

text \<open>
  The loop of the Integer case runs over the runes of the value. A rune outside ASCII is
  encoded by bytes from 128 on and is itself greater than \<^verbatim>\<open>'9'\<close> and no minus sign,
  so the test gives the same answer on the bytes.
\<close>

fun integer_runes :: "string \<Rightarrow> bool" where
  "integer_runes [] = True"
| "integer_runes (r # rs) =
     (if (of_char r :: nat) < of_char (CHR ''0'') \<or> (of_char r :: nat) > of_char (CHR ''9'')
      then (if r \<noteq> CHR ''-'' then False else integer_runes rs)
      else integer_runes rs)"

fun validateAttributeValue :: "string \<Rightarrow> SchemaAttributeType \<Rightarrow> bool" where
  "validateAttributeValue val SchemaAttributeString = True"
| "validateAttributeValue val SchemaAttributeInteger =
     (if val = [] \<or> val = ''-'' then False else integer_runes val)"
| "validateAttributeValue val SchemaAttributeBoolean = (val = ''true'' \<or> val = ''false'')"
| "validateAttributeValue val (SchemaAttributeOther n) = False"

fun check_attributes ::
  "(string \<times> SchemaAttributeType) list \<Rightarrow> (string \<times> string) list \<Rightarrow> error option" where
  "check_attributes schemaAttrs [] = None"
| "check_attributes schemaAttrs ((key, val) # rest) =
     (case map_of schemaAttrs key of
        Some schemaType \<Rightarrow>
          if \<not> validateAttributeValue val schemaType
          then Some (InvalidAttributeValue key val schemaType)
          else check_attributes schemaAttrs rest
      | None \<Rightarrow> Some (UndeclaredAttribute key))"

fun check_required ::
  "c_heap \<Rightarrow> Attributes \<Rightarrow> (string \<times> SchemaAttributeType) list \<Rightarrow> error option" where
  "check_required h a [] = None"
| "check_required h a ((schemaKey, schemaType) # rest) =
     (if \<not> Has h a schemaKey then Some (MissingRequiredAttribute schemaKey)
      else check_required h a rest)"

definition validateAgainstSchema :: "c_heap \<Rightarrow> Attributes \<Rightarrow> Schema option \<Rightarrow> error option" where
  "validateAgainstSchema h a schema =
     (case schema of
        None \<Rightarrow> None
      | Some s \<Rightarrow>
          (case cSchema s of
             None \<Rightarrow> None
           | Some c \<Rightarrow>
               (let schemaAttrs = go_range (Schema_Attributes s)
                in (case check_attributes schemaAttrs (go_range (ToMap h a)) of
                      Some err \<Rightarrow> Some err
                    | None \<Rightarrow> check_required h a schemaAttrs))))"


subsection \<open>Normalisation helpers\<close>

text \<open>
  In a case of a type switch that lists several types the variable keeps the static type
  \<^verbatim>\<open>interface{}\<close>, so \<^verbatim>\<open>v == 0\<close> compares the interface value \<^verbatim>\<open>v\<close> with the constant
  0 converted to an interface value, which has the dynamic type \<^verbatim>\<open>int\<close>: the comparison
  is with \<open>VInt 0\<close>.
\<close>

fun NormalizeBooleanAttribute :: "GoValue \<Rightarrow> error + string" where
  "NormalizeBooleanAttribute (VString v) =
     (if v = ''true'' \<or> v = ''TRUE'' \<or> v = ''True'' \<or> v = ''1'' then Inr ''true''
      else if v = ''false'' \<or> v = ''FALSE'' \<or> v = ''False'' \<or> v = ''0'' then Inr ''false''
      else Inl (InvalidBooleanLiteral v))"
| "NormalizeBooleanAttribute (VBool v) = (if v then Inr ''true'' else Inr ''false'')"
| "NormalizeBooleanAttribute (VInt v) = (if VInt v = VInt 0 then Inr ''false'' else Inr ''true'')"
| "NormalizeBooleanAttribute (VInt8 v) = (if VInt8 v = VInt 0 then Inr ''false'' else Inr ''true'')"
| "NormalizeBooleanAttribute (VInt16 v) = (if VInt16 v = VInt 0 then Inr ''false'' else Inr ''true'')"
| "NormalizeBooleanAttribute (VInt32 v) = (if VInt32 v = VInt 0 then Inr ''false'' else Inr ''true'')"
| "NormalizeBooleanAttribute (VInt64 v) = (if VInt64 v = VInt 0 then Inr ''false'' else Inr ''true'')"
| "NormalizeBooleanAttribute (VUint v) = (if VUint v = VInt 0 then Inr ''false'' else Inr ''true'')"
| "NormalizeBooleanAttribute (VUint8 v) = (if VUint8 v = VInt 0 then Inr ''false'' else Inr ''true'')"
| "NormalizeBooleanAttribute (VUint16 v) = (if VUint16 v = VInt 0 then Inr ''false'' else Inr ''true'')"
| "NormalizeBooleanAttribute (VUint32 v) = (if VUint32 v = VInt 0 then Inr ''false'' else Inr ''true'')"
| "NormalizeBooleanAttribute (VUint64 v) = (if VUint64 v = VInt 0 then Inr ''false'' else Inr ''true'')"
| "NormalizeBooleanAttribute VNil = Inl BooleanTypeMismatch"
| "NormalizeBooleanAttribute (VOther ty) = Inl BooleanTypeMismatch"

text \<open>
  \<^verbatim>\<open>fmt.Sscanf(v, "%d", new(int))\<close> of Go's \<^verbatim>\<open>fmt\<close> package, as far as its error result
  goes (\<open>True\<close>: the error is \<^verbatim>\<open>nil\<close>). It skips leading blanks, fails on a newline or at
  the end of the input, accepts one sign, reads the longest run of decimal digits, which
  must not be empty and must fit 64 bits, and leaves the rest of the input unread. The
  blanks are those of ASCII; a blank outside ASCII counts here as any other character.
\<close>

definition scan_space :: "char \<Rightarrow> bool" where
  "scan_space c =
     (c = CHR '' '' \<or> c = CHR 0x09 \<or> c = CHR 0x0B \<or> c = CHR 0x0C \<or> c = CHR 0x0D)"

fun SkipSpace :: "string \<Rightarrow> string option" where
  "SkipSpace [] = Some []"
| "SkipSpace (r # rs) =
     (if r = CHR 0x0A then None
      else if scan_space r then SkipSpace rs
      else Some (r # rs))"

definition is_digit :: "char \<Rightarrow> bool" where
  "is_digit c =
     ((of_char (CHR ''0'') :: nat) \<le> of_char c \<and> (of_char c :: nat) \<le> of_char (CHR ''9''))"

definition digits_value :: "string \<Rightarrow> nat" where
  "digits_value ds = foldl (\<lambda>n c. 10 * n + (of_char c - 48)) 0 ds"

definition Sscanf_d :: "string \<Rightarrow> bool" where
  "Sscanf_d input =
     (case SkipSpace input of
        None \<Rightarrow> False
      | Some rest \<Rightarrow>
          (let (neg, rest') =
                 (case rest of
                    [] \<Rightarrow> (False, [])
                  | c # cs \<Rightarrow>
                      if c = CHR ''+'' \<or> c = CHR ''-'' then (c = CHR ''-'', cs)
                      else (False, rest));
               tok = takeWhile is_digit rest'
           in tok \<noteq> [] \<and>
              (if neg then digits_value tok \<le> 2 ^ 63 else digits_value tok < 2 ^ 63)))"

fun NormalizeIntegerAttribute :: "GoValue \<Rightarrow> error + string" where
  "NormalizeIntegerAttribute (VString v) =
     (if v = [] then Inl EmptyIntegerLiteral
      else if \<not> Sscanf_d v then Inl (InvalidIntegerLiteral v)
      else Inr v)"
| "NormalizeIntegerAttribute (VInt v) = Inr (Sprintf_d (sint v))"
| "NormalizeIntegerAttribute (VInt8 v) = Inr (Sprintf_d (sint v))"
| "NormalizeIntegerAttribute (VInt16 v) = Inr (Sprintf_d (sint v))"
| "NormalizeIntegerAttribute (VInt32 v) = Inr (Sprintf_d (sint v))"
| "NormalizeIntegerAttribute (VInt64 v) = Inr (Sprintf_d (sint v))"
| "NormalizeIntegerAttribute (VUint v) = Inr (Sprintf_d (uint v))"
| "NormalizeIntegerAttribute (VUint8 v) = Inr (Sprintf_d (uint v))"
| "NormalizeIntegerAttribute (VUint16 v) = Inr (Sprintf_d (uint v))"
| "NormalizeIntegerAttribute (VUint32 v) = Inr (Sprintf_d (uint v))"
| "NormalizeIntegerAttribute (VUint64 v) = Inr (Sprintf_d (uint v))"
| "NormalizeIntegerAttribute (VBool v) = Inl IntegerTypeMismatch"
| "NormalizeIntegerAttribute VNil = Inl IntegerTypeMismatch"
| "NormalizeIntegerAttribute (VOther ty) = Inl IntegerTypeMismatch"

section \<open>Storing a password (password.go)\<close>

text \<open>
  The secret service is outside the program. A call of \<^verbatim>\<open>secret_password_storev_sync\<close>
  is recorded with its arguments in the list of calls made so far, and the service, a
  parameter, answers with a result flag and an optional error message.
\<close>

record store_call =
  call_schema :: "SecretSchema option"
  call_attributes :: nat
  call_collection :: "string option"
  call_label :: string
  call_password :: string

record world =
  heap :: c_heap
  calls :: "store_call list"

definition PasswordStoreSync ::
  "(world \<Rightarrow> store_call \<Rightarrow> bool \<times> string option) \<Rightarrow> world \<Rightarrow>
   Schema option \<Rightarrow> Attributes option \<Rightarrow> string \<Rightarrow> string \<Rightarrow> string \<Rightarrow> error option \<times> world" where
  "PasswordStoreSync secret_password_storev_sync w schema attributes collection label password =
     (case attributes of
        None \<Rightarrow> (Some NilAttributes, w)
      | Some a \<Rightarrow>
          (case cAttributes a of
             None \<Rightarrow> (Some NilAttributes, w)
           | Some p \<Rightarrow>
               if label = [] then (Some EmptyLabel, w)
               else if password = [] then (Some EmptyPassword, w)
               else
                 (let call = \<lparr>call_schema = (case schema of None \<Rightarrow> None | Some s \<Rightarrow> cSchema s),
                              call_attributes = p,
                              call_collection =
                                (if collection \<noteq> [] then Some (CString collection) else None),
                              call_label = CString label,
                              call_password = CString password\<rparr>;
                      (result, cError) = secret_password_storev_sync w call;
                      w' = w\<lparr>calls := calls w @ [call]\<rparr>
                  in (case cError of
                        Some errMsg \<Rightarrow> (Some (ExternalOperationFailed (Some errMsg)), w')
                      | None \<Rightarrow>
                          if \<not> result then (Some (ExternalOperationFailed None), w')
                          else (None, w')))))"

section \<open>Notions used in the statements\<close>

text \<open>The number held by a value of one of Go's ten sized or unsized integer types.\<close>

fun integer_of :: "GoValue \<Rightarrow> int option" where
  "integer_of (VInt v) = Some (sint v)"
| "integer_of (VInt8 v) = Some (sint v)"
| "integer_of (VInt16 v) = Some (sint v)"
| "integer_of (VInt32 v) = Some (sint v)"
| "integer_of (VInt64 v) = Some (sint v)"
| "integer_of (VUint v) = Some (uint v)"
| "integer_of (VUint8 v) = Some (uint v)"
| "integer_of (VUint16 v) = Some (uint v)"
| "integer_of (VUint32 v) = Some (uint v)"
| "integer_of (VUint64 v) = Some (uint v)"
| "integer_of v = None"




text \<open>
  A change of a container, and a sequence of changes applied to the same container one
  after the other.
\<close>

datatype mutation = MSet string string | MDelete string

fun mutate :: "c_heap \<Rightarrow> Attributes \<Rightarrow> mutation \<Rightarrow> c_heap" where
  "mutate h a (MSet key val) = snd (Set_attr h a key val)"
| "mutate h a (MDelete key) = snd (Delete h a key)"

definition mutations :: "c_heap \<Rightarrow> Attributes \<Rightarrow> mutation list \<Rightarrow> c_heap" where
  "mutations h a ms = foldl (\<lambda>h' m. mutate h' a m) h ms"

section \<open>Validation of attribute values\<close>

text \<open>
  Claim C1. Schema validation is claimed to accept the value of an Integer-typed key
  exactly when it is an optional leading minus sign followed by one or more decimal
  digits. The loop of \<open>validateAttributeValue\<close> lets a minus sign pass at every position,
  against its own comment ("Allow negative sign at start"): the value \<open>1-2\<close> is accepted,
  and a container holding it under an Integer-typed key validates without an error.
\<close>

theorem C1_integer_accepts_inner_minus:
  "validateAttributeValue ''1-2'' SchemaAttributeInteger \<and>
   validateAttributeValue ''--'' SchemaAttributeInteger \<and>
   validateAgainstSchema [Some [(''port'', ''1-2'')]] \<lparr>cAttributes = Some 0\<rparr>
     (Some \<lparr>cSchema = Some \<lparr>schema_name = ''org.example.Schema'', schema_flags = 0,
        schema_attributes = [(''port'', SchemaAttributeInteger)]\<rparr>\<rparr>) = None"
  by (simp add: validateAgainstSchema_def Schema_Attributes_def go_range_def ToMap_def
      table_at_def GoString_def Has_def g_hash_table_contains_def CString_def)

section \<open>Normalisation helpers\<close>

lemma NormalizeBoolean_nonzero:
  "integer_of v = Some n \<Longrightarrow> n \<noteq> 0 \<Longrightarrow> NormalizeBooleanAttribute v = Inr ''true''"
  by (cases v) auto

lemma NormalizeBoolean_idem:
  "NormalizeBooleanAttribute v = Inr r \<Longrightarrow> NormalizeBooleanAttribute (VString r) = Inr r"
  by (cases v) (auto split: if_splits)

text \<open>
  Claim C2, as amended. \<open>NormalizeBooleanAttribute\<close> returns \<open>true\<close> for exactly the
  strings \<open>true\<close>, \<open>TRUE\<close>, \<open>True\<close> and \<open>1\<close>, returns \<open>false\<close> for exactly \<open>false\<close>,
  \<open>FALSE\<close>, \<open>False\<close> and \<open>0\<close>, and fails on every other string; it maps the native
  booleans to \<open>true\<close> and \<open>false\<close>, the \<^verbatim>\<open>int\<close> zero to \<open>false\<close> and every nonzero
  integer of any width and signedness to \<open>true\<close>; it fails on \<^verbatim>\<open>nil\<close> and on a value of
  any other type; and applied to one of its own results it returns that result.
\<close>

theorem C2_NormalizeBoolean:
  "(\<forall>s. NormalizeBooleanAttribute (VString s) =
      (if s \<in> {''true'', ''TRUE'', ''True'', ''1''} then Inr ''true''
       else if s \<in> {''false'', ''FALSE'', ''False'', ''0''} then Inr ''false''
       else Inl (InvalidBooleanLiteral s))) \<and>
   (\<forall>b. NormalizeBooleanAttribute (VBool b) = Inr (if b then ''true'' else ''false'')) \<and>
   NormalizeBooleanAttribute (VInt 0) = Inr ''false'' \<and>
   (\<forall>v n. integer_of v = Some n \<longrightarrow> n \<noteq> 0 \<longrightarrow>
      NormalizeBooleanAttribute v = Inr ''true'') \<and>
   NormalizeBooleanAttribute VNil = Inl BooleanTypeMismatch \<and>
   (\<forall>ty. NormalizeBooleanAttribute (VOther ty) = Inl BooleanTypeMismatch) \<and>
   (\<forall>v r. NormalizeBooleanAttribute v = Inr r \<longrightarrow>
      NormalizeBooleanAttribute (VString r) = Inr r)"
proof (intro conjI allI impI)
  fix s
  show "NormalizeBooleanAttribute (VString s) =
      (if s \<in> {''true'', ''TRUE'', ''True'', ''1''} then Inr ''true''
       else if s \<in> {''false'', ''FALSE'', ''False'', ''0''} then Inr ''false''
       else Inl (InvalidBooleanLiteral s))"
    by simp
next
  fix v n
  assume "integer_of v = Some n" "n \<noteq> 0"
  then show "NormalizeBooleanAttribute v = Inr ''true''"
    by (rule NormalizeBoolean_nonzero)
next
  fix v r
  assume "NormalizeBooleanAttribute v = Inr r"
  then show "NormalizeBooleanAttribute (VString r) = Inr r"
    by (rule NormalizeBoolean_idem)
qed simp_all

theorem C2_NormalizeBoolean_witness:
  "integer_of (VUint8 7) = Some 7 \<and> (7::int) \<noteq> 0 \<and>
   NormalizeBooleanAttribute (VUint8 7) = Inr ''true'' \<and>
   NormalizeBooleanAttribute (VString ''TRUE'') = Inr ''true'' \<and>
   NormalizeBooleanAttribute (VString ''true'') = Inr ''true''"
proof -
  have a: "integer_of (VUint8 7) = Some 7" by simp
  have b: "(7::int) \<noteq> 0" by simp
  have c: "NormalizeBooleanAttribute (VString ''TRUE'') = Inr ''true''" by simp
  from C2_NormalizeBoolean a b
  have "NormalizeBooleanAttribute (VUint8 7) = Inr ''true''" by blast
  moreover from C2_NormalizeBoolean c
  have "NormalizeBooleanAttribute (VString ''true'') = Inr ''true''" by blast
  ultimately show ?thesis using a b c by blast
qed

text \<open>
  The claim as stated fails: the spelling \<open>tRUE\<close> of "true" is rejected, since the
  switch lists three spellings and no more.
\<close>

theorem C2_mixed_case_rejected:
  "NormalizeBooleanAttribute (VString ''tRUE'') = Inl (InvalidBooleanLiteral ''tRUE'')"
  by simp

text \<open>
  A zero of a sized or unsigned integer type is not equal to the \<^verbatim>\<open>int\<close> zero as an
  interface value, so it is mapped to \<open>true\<close>.
\<close>

lemma NormalizeBoolean_sized_zero:
  "NormalizeBooleanAttribute (VInt8 0) = Inr ''true'' \<and>
   NormalizeBooleanAttribute (VInt64 0) = Inr ''true'' \<and>
   NormalizeBooleanAttribute (VUint 0) = Inr ''true''"
  by simp

text \<open>
  Claim C3. \<open>NormalizeIntegerAttribute\<close> is claimed to fail on every string with
  non-numeric content. Its check is \<^verbatim>\<open>Sscanf\<close> with the verb \<^verbatim>\<open>%d\<close>, which stops reading
  at the first character that is no digit and reports no error for the rest, against
  the comment of the source ("Validate that it's a valid integer string"): the string
  \<open>42abc\<close> is returned as it is, while the validation of an Integer-typed attribute
  rejects it.
\<close>

theorem C3_trailing_text_accepted:
  "NormalizeIntegerAttribute (VString ''42abc'') = Inr ''42abc'' \<and>
   \<not> validateAttributeValue ''42abc'' SchemaAttributeInteger"
  by (simp add: Sscanf_d_def scan_space_def is_digit_def digits_value_def)

section \<open>The argument list of BuildAttributes\<close>

lemma effectiveArgs_snoc_nil: "effectiveArgs (xs @ [VNil]) = xs"
  by (simp add: effectiveArgs_def)

lemma effectiveArgs_keep: "args = [] \<or> last args \<noteq> VNil \<Longrightarrow> effectiveArgs args = args"
  by (auto simp: effectiveArgs_def last_conv_nth)

lemma BuildAttributes_odd:
  assumes "args \<noteq> []" "odd (length (effectiveArgs args))"
  shows "BuildAttributes h args = (Inl (OddArgumentCount (length args)), h)"
proof -
  have "\<not> (length args = 1 \<and> args ! 0 = VNil)"
  proof
    assume "length args = 1 \<and> args ! 0 = VNil"
    then have "args = [VNil]" by (cases args) auto
    with assms(2) show False by (simp add: effectiveArgs_def)
  qed
  with assms show ?thesis
    by (auto simp: BuildAttributes_def odd_iff_mod_2_eq_one)
qed

text \<open>
  Claim C6. \<open>BuildAttributes\<close> fails with \<open>EmptyInput\<close> on no arguments; a single
  terminator yields an empty container and no error; one trailing terminator is stripped
  before the length is tested, so that \<open>k\<close>, \<open>v\<close>, terminator yields a container of
  length 1 that holds \<open>v\<close> under \<open>k\<close> and nothing else; and a list that is not empty and
  has odd length after stripping fails with \<open>OddArgumentCount\<close>.
\<close>

theorem C6_BuildAttributes_arity:
  "BuildAttributes h [] = (Inl EmptyInput, h) \<and>
   (\<exists>a h'. BuildAttributes h [VNil] = (Inr a, h') \<and> Len h' a = 0 \<and> ToMap h' a = Some []) \<and>
   (\<forall>xs. effectiveArgs (xs @ [VNil]) = xs) \<and>
   (\<exists>a h'. BuildAttributes h [VString ''k'', VString ''v'', VNil] = (Inr a, h') \<and>
      Len h' a = 1 \<and> ToMap h' a = Some [(''k'', ''v'')] \<and> Get h' a ''k'' = ''v'') \<and>
   (\<forall>args. args \<noteq> [] \<and> odd (length (effectiveArgs args)) \<longrightarrow>
      BuildAttributes h args = (Inl (OddArgumentCount (length args)), h))"
proof (intro conjI allI impI)
  show "BuildAttributes h [] = (Inl EmptyInput, h)"
    by (simp add: BuildAttributes_def)
  show "\<exists>a h'. BuildAttributes h [VNil] = (Inr a, h') \<and> Len h' a = 0 \<and> ToMap h' a = Some []"
    by (simp add: BuildAttributes_def NewAttributes_def g_hash_table_new_full_def Len_def
        g_hash_table_size_def table_at_def ToMap_def)
  show "\<exists>a h'. BuildAttributes h [VString ''k'', VString ''v'', VNil] = (Inr a, h') \<and>
      Len h' a = 1 \<and> ToMap h' a = Some [(''k'', ''v'')] \<and> Get h' a ''k'' = ''v''"
    by (simp add: BuildAttributes_def effectiveArgs_def NewAttributes_def
        g_hash_table_new_full_def Set_attr_def set_attr_def g_hash_table_insert_def
        Len_def g_hash_table_size_def table_at_def ToMap_def Get_def g_hash_table_lookup_def
        CString_def GoString_def)
next
  fix xs
  show "effectiveArgs (xs @ [VNil]) = xs"
    by (rule effectiveArgs_snoc_nil)
next
  fix args
  assume "args \<noteq> [] \<and> odd (length (effectiveArgs args))"
  then show "BuildAttributes h args = (Inl (OddArgumentCount (length args)), h)"
    using BuildAttributes_odd by blast
qed

theorem C6_BuildAttributes_arity_witness:
  "[VString ''key1''] \<noteq> [] \<and> odd (length (effectiveArgs [VString ''key1''])) \<and>
   BuildAttributes [] [VString ''key1''] = (Inl (OddArgumentCount 1), [])"
proof -
  have a: "[VString ''key1''] \<noteq> [] \<and> odd (length (effectiveArgs [VString ''key1'']))"
    by (simp add: effectiveArgs_def)
  from C6_BuildAttributes_arity [of "[]"] a
  have "BuildAttributes [] [VString ''key1''] =
      (Inl (OddArgumentCount (length [VString ''key1''])), [])"
    by blast
  with a show ?thesis by simp
qed

section \<open>Released containers\<close>

lemma Free_NewAttributes:
  "Free (snd (NewAttributes [])) (fst (NewAttributes [])) = (\<lparr>cAttributes = None\<rparr>, [None])"
  by (simp add: Free_def free_def NewAttributes_def g_hash_table_new_full_def
      g_hash_table_unref_def)

text \<open>
  Claim C10, as amended. On a released container \<open>Get\<close> returns the empty string, \<open>Has\<close>
  and \<open>Delete\<close> return false, \<open>Len\<close> returns 0, \<open>IsEmpty\<close> returns true, \<open>Keys\<close> and
  \<open>ToMap\<close> return \<^verbatim>\<open>nil\<close>, none of them failing or touching the heap; \<open>Set\<close> reports an
  error, and so do \<open>Clone\<close> and \<open>Validate\<close>.
\<close>

theorem C10_released_container:
  "cAttributes a = None \<Longrightarrow>
     Get h a key = [] \<and> Has h a key = False \<and> Delete h a key = (False, h) \<and>
     Len h a = 0 \<and> IsEmpty h a \<and> Keys h a = None \<and> ToMap h a = None \<and>
     Set_attr h a key val = (Some NotInitialized, h) \<and>
     Clone h a = (Inl NotInitialized, h) \<and>
     Validate secret_attributes_validate h a schema = Some NotInitialized"
  by (simp add: Get_def Has_def Delete_def Len_def IsEmpty_def Keys_def ToMap_def Set_attr_def
      set_attr_def Clone_def Validate_def)

theorem C10_released_container_witness:
  "(let (a, h) = Free (snd (NewAttributes [])) (fst (NewAttributes []))
    in cAttributes a = None \<and> Get h a ''k'' = [] \<and> Has h a ''k'' = False \<and>
       Delete h a ''k'' = (False, h) \<and> Len h a = 0 \<and> IsEmpty h a \<and> Keys h a = None \<and>
       ToMap h a = None \<and> Set_attr h a ''k'' ''v'' = (Some NotInitialized, h) \<and>
       Clone h a = (Inl NotInitialized, h))"
proof -
  have r: "cAttributes \<lparr>cAttributes = None\<rparr> = None" by simp
  show ?thesis
    using C10_released_container [OF r, of "[None]" "''k''" "''v''"]
    by (simp add: Free_NewAttributes)
qed

text \<open>
  The claim as stated fails: \<open>Set\<close> is not the only operation that reports an error on
  a released container. \<open>Clone\<close>, which reads the container and changes nothing,
  reports one as well.
\<close>

theorem C10_Clone_released_fails:
  "(let (a, h) = Free (snd (NewAttributes [])) (fst (NewAttributes []))
    in Clone h a = (Inl NotInitialized, h))"
  by (simp add: Free_NewAttributes Clone_def)

section \<open>Storing a password\<close>

text \<open>
  Claim C9, as amended. When the attribute container is absent (\<^verbatim>\<open>nil\<close>) or released,
  or the label is empty, or the password is empty, \<open>PasswordStoreSync\<close> returns an error
  without calling the secret service, and the heap and the list of calls are as before.
\<close>

theorem C9_PasswordStoreSync_rejects:
  "attributes = None \<or> (\<exists>a. attributes = Some a \<and> cAttributes a = None) \<or>
   label = [] \<or> password = [] \<Longrightarrow>
   \<exists>err. PasswordStoreSync svc w schema attributes collection label password = (Some err, w)"
  by (auto simp: PasswordStoreSync_def split: option.splits)

theorem C9_PasswordStoreSync_rejects_witness:
  "(''MyApp Password'' \<noteq> [] \<and> ([]::string) = []) \<and>
   (\<exists>err. PasswordStoreSync (\<lambda>w c. (True, None)) \<lparr>heap = [Some [(''username'', ''john'')]], calls = []\<rparr>
      None (Some \<lparr>cAttributes = Some 0\<rparr>) ''default'' ''MyApp Password'' [] =
      (Some err, \<lparr>heap = [Some [(''username'', ''john'')]], calls = []\<rparr>))"
proof -
  have p: "(Some \<lparr>cAttributes = Some 0\<rparr> = None \<or>
      (\<exists>a. Some \<lparr>cAttributes = Some 0\<rparr> = Some a \<and> cAttributes a = None) \<or>
      ''MyApp Password'' = [] \<or> ([]::string) = [])"
    by simp
  show ?thesis
    using C9_PasswordStoreSync_rejects [OF p] by simp
qed

text \<open>
  The claim as stated fails: a container that is live and holds no entry is not
  rejected. The call reaches the secret service, which here accepts it.
\<close>

theorem C9_empty_container_reaches_service:
  "(let (a, h) = NewAttributes [];
        w = \<lparr>heap = h, calls = []\<rparr>;
        (err, w') = PasswordStoreSync (\<lambda>w c. (True, None)) w None (Some a) [] ''label'' ''secret''
    in IsEmpty h a \<and> err = None \<and>
       calls w' = [\<lparr>call_schema = None, call_attributes = 0, call_collection = None,
                    call_label = ''label'', call_password = ''secret''\<rparr>])"
  by (simp add: NewAttributes_def g_hash_table_new_full_def IsEmpty_def Len_def
      g_hash_table_size_def table_at_def PasswordStoreSync_def CString_def)

section \<open>Validation against a schema\<close>










section \<open>Decimal numerals\<close>


lemma of_char_digit_char: "d < 10 \<Longrightarrow> (of_char (digit_char d) :: nat) = 48 + d"
  by (simp add: digit_char_def)


lemma digit_char_not_minus: "d < 10 \<Longrightarrow> digit_char d \<noteq> CHR ''-''"
proof
  assume "d < 10" "digit_char d = CHR ''-''"
  then have "(of_char (digit_char d) :: nat) = of_char (CHR ''-'')" by simp
  with \<open>d < 10\<close> show False by (simp add: of_char_digit_char)
qed

lemma digit_char_not_NUL: "d < 10 \<Longrightarrow> digit_char d \<noteq> NUL"
proof
  assume "d < 10" "digit_char d = NUL"
  then have "(of_char (digit_char d) :: nat) = of_char NUL" by simp
  with \<open>d < 10\<close> show False by (simp add: of_char_digit_char)
qed



lemma is_digit_not_NUL: "is_digit c \<Longrightarrow> c \<noteq> NUL"
  by (auto simp: is_digit_def)






section \<open>The values of BuildAttributes\<close>








lemma CString_cstr: "cstr s \<Longrightarrow> CString s = s"
  by (auto simp: cstr_def CString_def)




section \<open>Tables in the heap\<close>

lemma GoString_cstr: "cstr s \<Longrightarrow> GoString s = s"
  by (auto simp: cstr_def GoString_def)

lemma table_at_update_same: "p < length h \<Longrightarrow> table_at (h[p := Some t]) p = t"
  by (simp add: table_at_def)

lemma table_at_update_other: "p \<noteq> q \<Longrightarrow> table_at (h[q := x]) p = table_at h p"
  by (simp add: table_at_def)

lemma table_at_live: "p < length h \<Longrightarrow> h ! p = Some t \<Longrightarrow> table_at h p = t"
  by (simp add: table_at_def)

lemma update_fresh: "k \<notin> fst ` set t \<Longrightarrow> AList.update k v t = t @ [(k, v)]"
  by (induction t) auto

lemma fold_update_fresh:
  "distinct (map fst m) \<Longrightarrow> fst ` set m \<inter> fst ` set t0 = {} \<Longrightarrow>
   fold (\<lambda>kv t. AList.update (fst kv) (snd kv) t) m t0 = t0 @ m"
proof (induction m arbitrary: t0)
  case Nil
  then show ?case by simp
next
  case (Cons kv m)
  from Cons.prems have fresh: "fst kv \<notin> fst ` set t0" by auto
  from Cons.prems have d: "distinct (map fst m)" by simp
  from Cons.prems have "fst ` set m \<inter> fst ` set (t0 @ [kv]) = {}" by auto
  from Cons.IH [OF d this] fresh show ?case
    by (simp add: update_fresh)
qed

section \<open>From a map and back\<close>

lemma from_map_loop_InvalidKey:
  "cAttributes attrs = Some p \<Longrightarrow> ([], v) \<in> set m \<Longrightarrow>
   fst (from_map_loop h attrs m) = Inl InvalidKey"
proof (induction m arbitrary: h)
  case Nil
  then show ?case by simp
next
  case (Cons kv m)
  obtain key val where kv: "kv = (key, val)" by (cases kv)
  show ?case
  proof (cases "key = []")
    case True
    with kv show ?thesis by simp
  next
    case False
    with Cons.prems kv have "([], v) \<in> set m" by auto
    with Cons.IH Cons.prems(1) have "\<And>h. fst (from_map_loop h attrs m) = Inl InvalidKey" by blast
    with False kv Cons.prems(1) show ?thesis
      by (simp add: set_attr_def)
  qed
qed

lemma from_map_loop_ok:
  "cAttributes attrs = Some p \<Longrightarrow> p < length h \<Longrightarrow> h ! p = Some t0 \<Longrightarrow>
   \<forall>kv \<in> set m. fst kv \<noteq> [] \<and> cstr (fst kv) \<and> cstr (snd kv) \<Longrightarrow>
   from_map_loop h attrs m =
     (Inr attrs, h[p := Some (fold (\<lambda>kv t. AList.update (fst kv) (snd kv) t)
                              (filter (\<lambda>kv. snd kv \<noteq> []) m) t0)])"
proof (induction m arbitrary: h t0)
  case Nil
  then have "h[p := Some t0] = h" by (simp add: list_update_same_conv)
  then show ?case by simp
next
  case (Cons kv m)
  obtain key val where kv: "kv = (key, val)" by (cases kv)
  from Cons.prems(4) kv have key: "key \<noteq> []" "cstr key" "cstr val" by auto
  from Cons.prems(4) have rest: "\<forall>kv \<in> set m. fst kv \<noteq> [] \<and> cstr (fst kv) \<and> cstr (snd kv)" by simp
  show ?case
  proof (cases "val = []")
    case True
    with kv key Cons.IH [OF Cons.prems(1,2,3) rest] show ?thesis by simp
  next
    case False
    let ?h' = "h[p := Some (AList.update key val t0)]"
    have 1: "p < length ?h'" using Cons.prems(2) by simp
    have 2: "?h' ! p = Some (AList.update key val t0)" using Cons.prems(2) by simp
    have "set_attr h attrs key val = (None, ?h')"
      using key Cons.prems(1,2,3)
      by (simp add: set_attr_def g_hash_table_insert_def CString_cstr table_at_live)
    with False kv key Cons.IH [OF Cons.prems(1) 1 2 rest] show ?thesis by simp
  qed
qed

lemma map_fst_filter_subset: "fst ` set (filter P m) \<subseteq> fst ` set m"
  by auto

lemma attrs_table_SomeD:
  "attrs_table h a = Some t \<Longrightarrow> \<exists>p. cAttributes a = Some p \<and> p < length h \<and> h ! p = Some t"
  by (auto simp: attrs_table_def split: option.splits if_splits)

lemma ToMap_wf:
  assumes "cAttributes a = Some p" "p < length h" "h ! p = Some t" "wf_table t"
  shows "ToMap h a = Some t"
proof -
  have "fold (\<lambda>kv result. AList.update (GoString (fst kv)) (GoString (snd kv)) result) t [] =
        fold (\<lambda>kv t. AList.update (fst kv) (snd kv) t) t []"
    using assms(4) by (intro fold_cong) (auto simp: wf_table_def list_all_iff GoString_cstr)
  also have "\<dots> = t"
    using assms(4) fold_update_fresh [of t "[]"] by (simp add: wf_table_def)
  finally show ?thesis
    using assms(1,2,3) by (simp add: ToMap_def table_at_live)
qed

lemma ToMap_live: "attrs_table h a = Some t \<Longrightarrow> wf_table t \<Longrightarrow> ToMap h a = Some t"
  by (auto dest!: attrs_table_SomeD intro: ToMap_wf)

lemma AttributesFromMap_ok:
  assumes "m \<noteq> []" "distinct (map fst m)"
    and "\<forall>kv \<in> set m. fst kv \<noteq> [] \<and> cstr (fst kv) \<and> cstr (snd kv)"
  shows "AttributesFromMap h m =
     (Inr \<lparr>cAttributes = Some (length h)\<rparr>, h @ [Some (filter (\<lambda>kv. snd kv \<noteq> []) m)])"
proof -
  let ?a = "\<lparr>cAttributes = Some (length h)\<rparr>"
  let ?f = "filter (\<lambda>kv. snd kv \<noteq> []) m"
  have d: "distinct (map fst ?f)" using assms(2) by (simp add: distinct_map_filter)
  have "from_map_loop (h @ [Some []]) ?a m =
      (Inr ?a, (h @ [Some []])[length h := Some (fold (\<lambda>kv t. AList.update (fst kv) (snd kv) t) ?f [])])"
    using from_map_loop_ok [of ?a "length h" "h @ [Some []]" "[]" m] assms(3) by simp
  moreover have "fold (\<lambda>kv t. AList.update (fst kv) (snd kv) t) ?f [] = ?f"
    using fold_update_fresh [OF d, of "[]"] by simp
  ultimately show ?thesis
    using assms(1) by (simp add: AttributesFromMap_def NewAttributes_def g_hash_table_new_full_def)
qed

text \<open>
  Claim C7, as amended. \<open>AttributesFromMap\<close> fails with \<open>EmptyInput\<close> on a map with no
  entry and with \<open>InvalidKey\<close> on a map with an empty key. On a map that is not empty,
  whose keys are not empty and whose keys and values contain no 0 byte, it succeeds, and
  \<open>ToMap\<close> of the result is the map without its entries of empty value.
\<close>

theorem C7_FromMap_ToMap:
  "AttributesFromMap h [] = (Inl EmptyInput, h) \<and>
   (\<forall>m v. ([], v) \<in> set m \<longrightarrow> fst (AttributesFromMap h m) = Inl InvalidKey) \<and>
   (\<forall>m. m \<noteq> [] \<and> distinct (map fst m) \<and>
        (\<forall>kv \<in> set m. fst kv \<noteq> [] \<and> cstr (fst kv) \<and> cstr (snd kv)) \<longrightarrow>
        (\<exists>a h' m'. AttributesFromMap h m = (Inr a, h') \<and> ToMap h' a = Some m' \<and>
           distinct (map fst m') \<and> map_of m' = map_of (filter (\<lambda>kv. snd kv \<noteq> []) m)))"
proof (intro conjI allI impI)
  show "AttributesFromMap h [] = (Inl EmptyInput, h)"
    by (simp add: AttributesFromMap_def)
next
  fix m :: "(string \<times> string) list" and v
  assume e: "([], v) \<in> set m"
  then have "m \<noteq> []" by auto
  with e show "fst (AttributesFromMap h m) = Inl InvalidKey"
    using from_map_loop_InvalidKey [of "\<lparr>cAttributes = Some (length h)\<rparr>" "length h" v m]
    by (simp add: AttributesFromMap_def NewAttributes_def g_hash_table_new_full_def)
next
  fix m
  assume a: "m \<noteq> [] \<and> distinct (map fst m) \<and>
    (\<forall>kv \<in> set m. fst kv \<noteq> [] \<and> cstr (fst kv) \<and> cstr (snd kv))"
  let ?f = "filter (\<lambda>kv. snd kv \<noteq> []) m"
  let ?a = "\<lparr>cAttributes = Some (length h)\<rparr>"
  from a have r: "AttributesFromMap h m = (Inr ?a, h @ [Some ?f])"
    using AttributesFromMap_ok by blast
  from a have wf: "wf_table ?f"
    by (auto simp: wf_table_def list_all_iff distinct_map_filter)
  have "ToMap (h @ [Some ?f]) ?a = Some ?f"
    using ToMap_wf [of ?a "length h" "h @ [Some ?f]" ?f] wf by simp
  with r wf show "\<exists>a h' m'. AttributesFromMap h m = (Inr a, h') \<and> ToMap h' a = Some m' \<and>
           distinct (map fst m') \<and> map_of m' = map_of ?f"
    by (auto simp: wf_table_def)
qed


text \<open>
  The claim as stated fails on a key with a 0 byte: the hash table sees the key up to
  that byte only, and \<open>ToMap\<close> returns the shortened key.
\<close>

theorem C7_key_cut_at_NUL:
  "(\<exists>a h'. AttributesFromMap [] [([CHR ''a'', NUL, CHR ''b''], ''v'')] = (Inr a, h') \<and>
      ToMap h' a = Some [(''a'', ''v'')]) \<and>
   map_of [(''a'', ''v'')] [CHR ''a'', NUL, CHR ''b''] = None \<and>
   map_of (filter (\<lambda>kv. snd kv \<noteq> []) [([CHR ''a'', NUL, CHR ''b''], ''v'')]) [CHR ''a'', NUL, CHR ''b'']
     = Some ''v''"
  by (simp add: AttributesFromMap_def NewAttributes_def g_hash_table_new_full_def set_attr_def
      g_hash_table_insert_def table_at_def CString_def ToMap_def GoString_def)

theorem C7_FromMap_ToMap_witness:
  "(\<exists>a h' m'. AttributesFromMap [] [(''username'', ''john''), (''note'', [])] = (Inr a, h') \<and>
      ToMap h' a = Some m' \<and> map_of m' = map_of [(''username'', ''john'')]) \<and>
   fst (AttributesFromMap [] [(''username'', ''john''), ([], ''x'')]) = Inl InvalidKey"
proof -
  let ?m = "[(''username'', ''john''), (''note'', [])]"
  have "?m \<noteq> [] \<and> distinct (map fst ?m) \<and>
        (\<forall>kv \<in> set ?m. fst kv \<noteq> [] \<and> cstr (fst kv) \<and> cstr (snd kv))"
    by (simp add: cstr_def)
  with C7_FromMap_ToMap [of "[]"]
  have "\<exists>a h' m'. AttributesFromMap [] ?m = (Inr a, h') \<and> ToMap h' a = Some m' \<and>
           distinct (map fst m') \<and> map_of m' = map_of (filter (\<lambda>kv. snd kv \<noteq> []) ?m)"
    by blast
  then have 1: "\<exists>a h' m'. AttributesFromMap [] ?m = (Inr a, h') \<and> ToMap h' a = Some m' \<and>
      map_of m' = map_of [(''username'', ''john'')]"
    by auto
  have "([], ''x'') \<in> set [(''username'', ''john''), ([], ''x'')]" by simp
  with C7_FromMap_ToMap [of "[]"]
  have 2: "fst (AttributesFromMap [] [(''username'', ''john''), ([], ''x'')]) = Inl InvalidKey"
    by blast
  from 1 2 show ?thesis by blast
qed

section \<open>Clone\<close>

lemma mutate_frame:
  assumes "cAttributes a = Some p" "cAttributes c = Some q" "p \<noteq> q"
  shows "attrs_table (mutate h c m) a = attrs_table h a"
  using assms
  by (cases m)
    (auto simp: attrs_table_def Set_attr_def set_attr_def Delete_def g_hash_table_insert_def
      g_hash_table_remove_def)

lemma mutations_frame:
  assumes "cAttributes a = Some p" "cAttributes c = Some q" "p \<noteq> q"
  shows "attrs_table (mutations h c ms) a = attrs_table h a"
proof (induction ms arbitrary: h)
  case Nil
  then show ?case by (simp add: mutations_def)
next
  case (Cons m ms)
  have "mutations h c (m # ms) = mutations (mutate h c m) c ms"
    by (simp add: mutations_def)
  with Cons.IH [of "mutate h c m"] mutate_frame [OF assms, of h m] show ?case by simp
qed

lemma Free_frame:
  assumes "cAttributes a = Some p" "cAttributes c = Some q" "p \<noteq> q"
  shows "attrs_table (snd (Free h c)) a = attrs_table h a"
  using assms by (simp add: attrs_table_def Free_def free_def g_hash_table_unref_def)

lemma clone_loop_fold:
  "q < length h \<Longrightarrow> h ! q = Some t0 \<Longrightarrow> list_all (\<lambda>kv. cstr (fst kv) \<and> cstr (snd kv)) t \<Longrightarrow>
   clone_loop h q t = h[q := Some (fold (\<lambda>kv t'. AList.update (fst kv) (snd kv) t') t t0)]"
proof (induction t arbitrary: h t0)
  case Nil
  then have "h[q := Some t0] = h" by (simp add: list_update_same_conv)
  then show ?case by simp
next
  case (Cons kv t)
  obtain key val where kv: "kv = (key, val)" by (cases kv)
  from Cons.prems(3) kv have c: "cstr key" "cstr val" by simp_all
  from Cons.prems(3) have rest: "list_all (\<lambda>kv. cstr (fst kv) \<and> cstr (snd kv)) t" by simp
  let ?h' = "h[q := Some (AList.update key val t0)]"
  have i: "g_hash_table_insert h q (CString (GoString key)) (CString (GoString val)) = ?h'"
    using c Cons.prems(1,2)
    by (simp add: g_hash_table_insert_def CString_cstr GoString_cstr table_at_live)
  have 1: "q < length ?h'" using Cons.prems(1) by simp
  have 2: "?h' ! q = Some (AList.update key val t0)" using Cons.prems(1) by simp
  from Cons.IH [OF 1 2 rest] i kv show ?case by simp
qed

lemma Clone_ok:
  assumes "attrs_table h a = Some t" "wf_table t"
  shows "Clone h a = (Inr \<lparr>cAttributes = Some (length h)\<rparr>, h @ [Some t])"
proof -
  from attrs_table_SomeD [OF assms(1)]
  obtain p where p: "cAttributes a = Some p" "p < length h" "h ! p = Some t" by blast
  have "clone_loop (h @ [Some []]) (length h) t =
      (h @ [Some []])[length h := Some (fold (\<lambda>kv t'. AList.update (fst kv) (snd kv) t') t [])]"
    using clone_loop_fold [of "length h" "h @ [Some []]" "[]" t] assms(2)
    by (simp add: wf_table_def)
  moreover have "fold (\<lambda>kv t'. AList.update (fst kv) (snd kv) t') t [] = t"
    using fold_update_fresh [of t "[]"] assms(2) by (simp add: wf_table_def)
  ultimately show ?thesis
    using p by (simp add: Clone_def NewAttributes_def g_hash_table_new_full_def table_at_live)
qed

lemma Len_live: "attrs_table h a = Some t \<Longrightarrow> Len h a = length t"
  by (auto dest!: attrs_table_SomeD simp: Len_def g_hash_table_size_def table_at_live)

lemma Keys_live:
  assumes "attrs_table h a = Some t" "wf_table t"
  shows "Keys h a = Some (map fst t)"
proof -
  have "\<And>acc. list_all (\<lambda>kv. cstr (fst kv) \<and> cstr (snd kv)) t \<Longrightarrow>
      fold (\<lambda>kv keys. keys @ [GoString (fst kv)]) t acc = acc @ map fst t"
    by (induction t) (simp_all add: GoString_cstr)
  with assms(2) have "fold (\<lambda>kv keys. keys @ [GoString (fst kv)]) t [] = map fst t"
    by (simp add: wf_table_def)
  with attrs_table_SomeD [OF assms(1)] show ?thesis
    by (auto simp: Keys_def table_at_live)
qed

lemma Has_live:
  "attrs_table h a = Some t \<Longrightarrow> Has h a key = (CString key \<in> fst ` set t)"
  by (force dest!: attrs_table_SomeD
      simp: Has_def g_hash_table_contains_def table_at_live map_of_eq_None_iff)

lemma Get_live:
  "attrs_table h a = Some t \<Longrightarrow>
   Get h a key = (case map_of t (CString key) of None \<Rightarrow> [] | Some v \<Rightarrow> GoString v)"
  by (auto dest!: attrs_table_SomeD simp: Get_def g_hash_table_lookup_def table_at_live)

lemma equals_loop_same:
  assumes "attrs_table h a = Some t" "attrs_table h c = Some t"
    and "list_all (\<lambda>kv. cstr (fst kv) \<and> cstr (snd kv)) t"
  shows "set keys \<subseteq> fst ` set t \<Longrightarrow> equals_loop h a c keys"
proof (induction keys)
  case Nil
  then show ?case by simp
next
  case (Cons key keys)
  from Cons.prems have k: "key \<in> fst ` set t" by simp
  with assms(3) have "cstr key" by (auto simp: list_all_iff)
  then have "CString key = key" by (rule CString_cstr)
  with k have "Has h c key" by (simp add: Has_live [OF assms(2)])
  moreover have "Get h a key = Get h c key"
    by (simp add: Get_live [OF assms(1)] Get_live [OF assms(2)])
  ultimately show ?case using Cons by simp
qed

lemma Equals_same:
  assumes "attrs_table h a = Some t" "attrs_table h c = Some t" "wf_table t"
  shows "Equals h (Some a) (Some c)"
proof -
  have "equals_loop h a c (map fst t)"
    using equals_loop_same [OF assms(1,2), of "map fst t"] assms(3) by (simp add: wf_table_def)
  then show ?thesis
    by (simp add: Len_live [OF assms(1)] Len_live [OF assms(2)] Keys_live [OF assms(1,3)]
        go_range_def)
qed

text \<open>
  Claim C8. For a container that is not released, \<open>Clone\<close> succeeds and the clone
  \<open>Equals\<close> the original: both point to tables with the same entries. The tables are
  two: whatever sequence of \<open>Set\<close> and \<open>Delete\<close> is applied to the clone, and also when
  the clone is freed, the table of the original is as before, and the same holds with
  the two exchanged.
\<close>

theorem C8_Clone_independent:
  assumes "attrs_table h a = Some t" and "wf_table t"
  shows "\<exists>c h'. Clone h a = (Inr c, h') \<and> Equals h' (Some a) (Some c) \<and>
           attrs_table h' a = Some t \<and> attrs_table h' c = Some t \<and>
           (\<forall>ms. attrs_table (mutations h' c ms) a = Some t) \<and>
           (\<forall>ms. attrs_table (mutations h' a ms) c = Some t) \<and>
           attrs_table (snd (Free h' a)) c = Some t \<and>
           attrs_table (snd (Free h' c)) a = Some t"
proof -
  let ?c = "\<lparr>cAttributes = Some (length h)\<rparr>"
  let ?h' = "h @ [Some t]"
  from attrs_table_SomeD [OF assms(1)]
  obtain p where p: "cAttributes a = Some p" "p < length h" "h ! p = Some t" by blast
  have q: "cAttributes ?c = Some (length h)" by simp
  from p(2) have ne: "p \<noteq> length h" by simp
  have ne': "length h \<noteq> p" using ne by simp
  have ta: "attrs_table ?h' a = Some t"
    using p by (simp add: attrs_table_def nth_append)
  have tc: "attrs_table ?h' ?c = Some t"
    by (simp add: attrs_table_def)
  have "Clone h a = (Inr ?c, ?h')" by (rule Clone_ok [OF assms])
  moreover have "Equals ?h' (Some a) (Some ?c)" by (rule Equals_same [OF ta tc assms(2)])
  moreover have "\<forall>ms. attrs_table (mutations ?h' ?c ms) a = Some t"
    using mutations_frame [OF p(1) q ne] ta by simp
  moreover have "\<forall>ms. attrs_table (mutations ?h' a ms) ?c = Some t"
    using mutations_frame [OF q p(1) ne'] tc by simp
  moreover have "attrs_table (snd (Free ?h' a)) ?c = Some t"
    using Free_frame [OF q p(1) ne'] tc by simp
  moreover have "attrs_table (snd (Free ?h' ?c)) a = Some t"
    using Free_frame [OF p(1) q ne] ta by simp
  ultimately show ?thesis using ta tc by blast
qed


text \<open>The operations keep a table well-formed.\<close>

lemma cstr_CString: "cstr (CString s)"
  by (auto simp: cstr_def CString_def dest: set_takeWhileD)

lemma wf_table_Nil: "wf_table []"
  by (simp add: wf_table_def)

lemma wf_table_update:
  assumes "wf_table t"
  shows "wf_table (AList.update (CString k) (CString v) t)"
proof -
  have "set (AList.update (CString k) (CString v) t) \<subseteq> insert (CString k, CString v) (set t)"
    by (induction t) auto
  with assms show ?thesis
    by (auto simp: wf_table_def list_all_iff distinct_update cstr_CString)
qed

lemma wf_table_delete:
  assumes "wf_table t"
  shows "wf_table (AList.delete k t)"
proof -
  have "set (AList.delete k t) \<subseteq> set t"
    by (auto simp: AList.delete_eq)
  with assms show ?thesis
    by (auto simp: wf_table_def list_all_iff distinct_delete)
qed

theorem C8_Clone_independent_witness:
  "(let h = [Some [(''key'', ''value'')]]; a = \<lparr>cAttributes = Some 0\<rparr>;
        c = \<lparr>cAttributes = Some 1\<rparr>; h' = [Some [(''key'', ''value'')], Some [(''key'', ''value'')]]
    in attrs_table h a = Some [(''key'', ''value'')] \<and> wf_table [(''key'', ''value'')] \<and>
       Clone h a = (Inr c, h') \<and> Equals h' (Some a) (Some c) \<and>
       ToMap (mutations h' c [MSet ''new_key'' ''new_value'', MDelete ''key'']) a =
         Some [(''key'', ''value'')] \<and>
       ToMap (mutations h' c [MSet ''new_key'' ''new_value'', MDelete ''key'']) c =
         Some [(''new_key'', ''new_value'')])"
proof -
  let ?t = "[(''key'', ''value'')]"
  let ?h = "[Some ?t]"
  let ?a = "\<lparr>cAttributes = Some 0\<rparr>"
  let ?c = "\<lparr>cAttributes = Some 1\<rparr>"
  let ?h' = "[Some ?t, Some ?t]"
  let ?ms = "[MSet ''new_key'' ''new_value'', MDelete ''key'']"
  have 1: "attrs_table ?h ?a = Some ?t" by (simp add: attrs_table_def)
  have 2: "wf_table ?t" by (simp add: wf_table_def cstr_def)
  have cl: "Clone ?h ?a = (Inr ?c, ?h')"
    by (simp add: Clone_def NewAttributes_def g_hash_table_new_full_def table_at_def
        g_hash_table_insert_def CString_def GoString_def)
  from C8_Clone_independent [OF 1 2]
  obtain c h' where r: "Clone ?h ?a = (Inr c, h')" "Equals h' (Some ?a) (Some c)"
    "\<forall>ms. attrs_table (mutations h' c ms) ?a = Some ?t"
    by blast
  from r(1) cl have "c = ?c" "h' = ?h'" by simp_all
  with r have eq: "Equals ?h' (Some ?a) (Some ?c)"
    and fr: "\<forall>ms. attrs_table (mutations ?h' ?c ms) ?a = Some ?t"
    by simp_all
  have m: "mutations ?h' ?c ?ms = [Some ?t, Some [(''new_key'', ''new_value'')]]"
    by (simp add: mutations_def Set_attr_def set_attr_def Delete_def g_hash_table_insert_def
        g_hash_table_remove_def table_at_def CString_def AList.delete_eq)
  from fr have "attrs_table (mutations ?h' ?c ?ms) ?a = Some ?t" by blast
  then have 3: "ToMap (mutations ?h' ?c ?ms) ?a = Some ?t"
    using 2 by (rule ToMap_live)
  have 4: "ToMap (mutations ?h' ?c ?ms) ?c = Some [(''new_key'', ''new_value'')]"
    unfolding m by (simp add: ToMap_def table_at_def GoString_def)
  from 1 2 cl eq 3 4 show ?thesis by (simp add: Let_def)
qed

section \<open>Well-formed heaps\<close>

lemma heap_wf_Nil: "heap_wf []"
  by (simp add: heap_wf_def)

lemma wf_table_at: "heap_wf h \<Longrightarrow> wf_table (table_at h p)"
  by (auto simp: heap_wf_def table_at_def list_all_length wf_table_Nil split: option.splits)

lemma heap_wf_update: "heap_wf h \<Longrightarrow> wf_table t \<Longrightarrow> heap_wf (h[p := Some t])"
  using set_update_subset_insert [of h p "Some t"]
  by (fastforce simp: heap_wf_def list_all_iff)

lemma heap_wf_unref: "heap_wf h \<Longrightarrow> heap_wf (g_hash_table_unref h p)"
  using set_update_subset_insert [of h p None]
  by (fastforce simp: heap_wf_def g_hash_table_unref_def list_all_iff)

lemma heap_wf_insert: "heap_wf h \<Longrightarrow> heap_wf (g_hash_table_insert h p (CString k) (CString v))"
  by (simp add: g_hash_table_insert_def heap_wf_update wf_table_update wf_table_at)

lemma heap_wf_new: "heap_wf h \<Longrightarrow> heap_wf (h @ [Some []])"
  by (simp add: heap_wf_def wf_table_Nil)

lemma heap_wf_NewAttributes: "heap_wf h \<Longrightarrow> heap_wf (snd (NewAttributes h))"
  by (simp add: NewAttributes_def g_hash_table_new_full_def heap_wf_new)

lemma heap_wf_set_attr: "heap_wf h \<Longrightarrow> heap_wf (snd (set_attr h a key val))"
  by (simp add: set_attr_def heap_wf_insert split: option.splits)

lemma heap_wf_Delete: "heap_wf h \<Longrightarrow> heap_wf (snd (Delete h a key))"
  by (simp add: Delete_def g_hash_table_remove_def heap_wf_update wf_table_delete wf_table_at
      split: option.splits)

lemma heap_wf_free: "heap_wf h \<Longrightarrow> heap_wf (snd (free h a))"
  by (simp add: free_def heap_wf_unref split: option.splits)

lemma heap_wf_mutations: "heap_wf h \<Longrightarrow> heap_wf (mutations h a ms)"
proof (induction ms arbitrary: h)
  case Nil
  then show ?case by (simp add: mutations_def)
next
  case (Cons m ms)
  have "heap_wf (mutate h a m)"
    using Cons.prems by (cases m) (simp_all add: Set_attr_def heap_wf_set_attr heap_wf_Delete)
  from Cons.IH [OF this] show ?case by (simp add: mutations_def)
qed

lemma heap_wf_clone_loop: "heap_wf h \<Longrightarrow> heap_wf (clone_loop h q t)"
  by (induction h q t rule: clone_loop.induct) (simp_all add: heap_wf_insert)

lemma heap_wf_Clone: "heap_wf h \<Longrightarrow> heap_wf (snd (Clone h a))"
  by (simp add: Clone_def NewAttributes_def g_hash_table_new_full_def heap_wf_clone_loop
      heap_wf_new split: option.splits)

lemma heap_wf_from_map_loop: "heap_wf h \<Longrightarrow> heap_wf (snd (from_map_loop h attrs m))"
proof (induction h attrs m rule: from_map_loop.induct)
  case (1 h attrs)
  then show ?case by simp
next
  case (2 h attrs key val rest)
  show ?case
  proof (cases "set_attr h attrs key val")
    case (Pair e h')
    with heap_wf_set_attr [OF "2.prems", of attrs key val] have "heap_wf h'" by simp
    with 2 Pair show ?thesis
      by (cases e) (simp_all add: heap_wf_free)
  qed
qed

lemma heap_wf_AttributesFromMap: "heap_wf h \<Longrightarrow> heap_wf (snd (AttributesFromMap h m))"
  by (simp add: AttributesFromMap_def NewAttributes_def g_hash_table_new_full_def
      heap_wf_from_map_loop heap_wf_new)

lemma heap_wf_build_loop: "heap_wf h \<Longrightarrow> heap_wf (snd (build_loop h attrs args))"
proof (induction h attrs args rule: build_loop.induct)
  case (4 h attrs key v rest)
  show ?case
  proof (cases "coerce_value v")
    case None
    with "4.prems" show ?thesis by (simp add: heap_wf_free)
  next
    case (Some valueStr)
    show ?thesis
    proof (cases "Set_attr h attrs key valueStr")
      case (Pair e h')
      with heap_wf_set_attr [OF "4.prems", of attrs key valueStr] have "heap_wf h'"
        by (simp add: Set_attr_def)
      with 4 Some Pair show ?thesis
        by (cases e) (simp_all add: heap_wf_free)
    qed
  qed
qed (simp_all add: heap_wf_free)

lemma heap_wf_BuildAttributes: "heap_wf h \<Longrightarrow> heap_wf (snd (BuildAttributes h args))"
  by (simp add: BuildAttributes_def NewAttributes_def g_hash_table_new_full_def
      heap_wf_build_loop heap_wf_new)

lemma heap_wf_attrs_table:
  assumes "heap_wf h" "attrs_table h a = Some t"
  shows "wf_table t"
proof -
  from attrs_table_SomeD [OF assms(2)]
  obtain p where "p < length h" "h ! p = Some t" by blast
  then have "table_at h p = t" by (rule table_at_live)
  with wf_table_at [OF assms(1), of p] show ?thesis by simp
qed

end
